theory Spec2Isabelle
  imports Main "HOL-Library.Word"
begin

section \<open>Scope checking utility (lib/auth/scopes.ts)\<close>

text \<open>
  JavaScript's \<^verbatim>\<open>String.prototype.split\<close> with a one-character separator, as
  \<^verbatim>\<open>requiredScope.split(':')\<close> calls it. The pieces between the occurrences of the
  separator are returned in order; the result is never empty (the empty string gives one
  empty piece). \<open>cur\<close> holds the piece being read, newest character first.
\<close>

fun split_acc :: "char \<Rightarrow> string \<Rightarrow> string \<Rightarrow> string list" where
  "split_acc sep cur [] = [rev cur]"
| "split_acc sep cur (c # cs) =
     (if c = sep then rev cur # split_acc sep [] cs else split_acc sep (c # cur) cs)"

definition split_str :: "string \<Rightarrow> char \<Rightarrow> string list" where
  "split_str s sep = split_acc sep [] s"

text \<open>
  The array destructuring \<^verbatim>\<open>const [resource] = ...\<close> reads index 0 and gives
  \<^verbatim>\<open>undefined\<close> on an empty array, which the template literal below prints as the
  text \<^verbatim>\<open>undefined\<close>.
\<close>

definition first_elem :: "string list \<Rightarrow> string" where
  "first_elem xs = (case xs of [] \<Rightarrow> ''undefined'' | x # _ \<Rightarrow> x)"

text \<open>\<^verbatim>\<open>Array.prototype.includes\<close> on an array of strings.\<close>

fun includes_arr :: "string list \<Rightarrow> string \<Rightarrow> bool" where
  "includes_arr [] x = False"
| "includes_arr (y # ys) x = (if y = x then True else includes_arr ys x)"

text \<open>
  \<^verbatim>\<open>
  export function hasScope(userScopes: string[] | undefined, requiredScope: string): boolean {
    if (!userScopes) return false;
    if (userScopes.includes('*')) return true;
    if (userScopes.includes(requiredScope)) return true;
    const [resource] = requiredScope.split(':');
    if (userScopes.includes(`${resource}:*`)) return true;
    return false;
  }
  \<close>
  An absent grant (\<^verbatim>\<open>undefined\<close>) is \<open>None\<close>; every array, the empty one too, is truthy.
\<close>

definition hasScope :: "string list option \<Rightarrow> string \<Rightarrow> bool" where
  "hasScope userScopes requiredScope =
     (case userScopes of
        None \<Rightarrow> False
      | Some granted \<Rightarrow>
          if includes_arr granted ''*'' then True
          else if includes_arr granted requiredScope then True
          else (let resource = first_elem (split_str requiredScope (CHR '':''))
                in if includes_arr granted (resource @ '':*'') then True else False))"

text \<open>
  The spec's words for the resource of a required scope: the part before the first
  separator, that is, the longest leading part without a colon. For a scope without
  separator this is the whole scope.
\<close>

definition resource_of :: "string \<Rightarrow> string" where
  "resource_of requiredScope = takeWhile (\<lambda>c. c \<noteq> CHR '':'') requiredScope"

section \<open>Authentication middleware (lib/auth/api-key-auth.ts, middleware/api-auth.ts)\<close>

text \<open>
  A value is truthy in an \<^verbatim>\<open>if\<close> when it is neither \<^verbatim>\<open>null\<close>/\<^verbatim>\<open>undefined\<close> nor the
  empty string.
\<close>

definition truthy :: "string option \<Rightarrow> bool" where
  "truthy v = (case v of None \<Rightarrow> False | Some s \<Rightarrow> s \<noteq> [])"

text \<open>
  The metadata stored with a key (\<^verbatim>\<open>result.meta\<close>); each entry may be missing.
\<close>

record key_meta =
  clerkUserId :: "string option"
  clerkOrgId :: "string option"
  meta_scopes :: "string list option"

text \<open>
  What \<^verbatim>\<open>verifyKey\<close> of the key service answers: an error with its message, or a
  result with its \<^verbatim>\<open>valid\<close> flag and the optional metadata.
\<close>

datatype verify_outcome = VerifyError string | VerifyResult bool "key_meta option"

text \<open>
  The interface \<^verbatim>\<open>ApiKeyAuthResult\<close>. Its optional fields \<^verbatim>\<open>userId\<close>, \<^verbatim>\<open>orgId\<close>,
  \<^verbatim>\<open>scopes\<close> and \<^verbatim>\<open>error\<close> carry the prefix \<open>r_\<close> here, since the context returned
  by \<^verbatim>\<open>withAuth\<close> has fields of the same names.
\<close>

record ApiKeyAuthResult =
  valid :: bool
  r_userId :: "string option"
  r_orgId :: "string option"
  r_scopes :: "string list option"
  r_error :: "string option"

text \<open>
  The services the middleware calls, as the answers they give: the key service's
  \<^verbatim>\<open>verifyKey\<close>; the identity provider's \<^verbatim>\<open>users.getUser\<close> (\<open>True\<close> when it resolves,
  \<open>False\<close> when it throws) and \<^verbatim>\<open>users.getOrganizationMembershipList\<close> (the identifiers
  of the organizations of the memberships, \<open>None\<close> when it throws); and the session that
  \<^verbatim>\<open>auth()\<close> reads.
\<close>

record services =
  verifyKey :: "string \<Rightarrow> verify_outcome"
  getUser :: "string option \<Rightarrow> bool"
  getOrganizationMembershipList :: "string option \<Rightarrow> string list option"
  auth_userId :: "string option"
  auth_orgId :: "string option"

definition invalid_result :: "string \<Rightarrow> ApiKeyAuthResult" where
  "invalid_result msg =
     \<lparr>valid = False, r_userId = None, r_orgId = None, r_scopes = None, r_error = Some msg\<rparr>"

definition some_member :: "string list \<Rightarrow> string option \<Rightarrow> bool" where
  "some_member orgs clerkOrg = list_ex (\<lambda>m. Some m = clerkOrg) orgs"

definition authenticateApiKey :: "services \<Rightarrow> string \<Rightarrow> ApiKeyAuthResult" where
  "authenticateApiKey env apiKey =
     (case verifyKey env apiKey of
        VerifyError msg \<Rightarrow> invalid_result msg
      | VerifyResult isValid meta \<Rightarrow>
          if \<not> isValid then invalid_result ''Invalid or revoked API key''
          else
            (let user = (case meta of None \<Rightarrow> None | Some m \<Rightarrow> clerkUserId m);
                 org = (case meta of None \<Rightarrow> None | Some m \<Rightarrow> clerkOrgId m);
                 scopes = (case meta of None \<Rightarrow> None | Some m \<Rightarrow> meta_scopes m);
                 ok = \<lparr>valid = True, r_userId = user, r_orgId = org, r_scopes = scopes,
                        r_error = None\<rparr>
             in if \<not> getUser env user then invalid_result ''User no longer exists''
                else if truthy org then
                  (case getOrganizationMembershipList env user of
                     None \<Rightarrow> invalid_result ''Organization verification failed''
                   | Some orgs \<Rightarrow>
                       if \<not> some_member orgs org
                       then invalid_result ''User no longer in organization''
                       else ok)
                else ok))"

text \<open>
  A request, as far as the middleware reads it: its headers, keyed by the lower-case
  header name (\<^verbatim>\<open>Headers.get\<close> ignores case and gives \<^verbatim>\<open>null\<close> for a missing header).
\<close>

record request =
  headers :: "string \<rightharpoonup> string"

datatype auth_method = api_key | session

text \<open>The object \<^verbatim>\<open>withAuth\<close> returns on success.\<close>

record auth_context =
  userId :: "string option"
  orgId :: "string option"
  scopes :: "string list option"
  authMethod :: auth_method

text \<open>
  The \<^verbatim>\<open>Response\<close> that \<^verbatim>\<open>withAuth\<close> returns on failure: its status and the
  \<^verbatim>\<open>error\<close> entry of its JSON body.
\<close>

record response =
  status :: nat
  body_error :: "string option"

text \<open>
  \<^verbatim>\<open>
  export async function withAuth(request: Request) {
    const apiKey = request.headers.get('x-api-key');
    const authHeader = request.headers.get('authorization');
    if (apiKey) {
      const result = await authenticateApiKey(apiKey);
      if (!result.valid) { return new Response(JSON.stringify({ error: result.error }), { status: 401, ... }); }
      return { userId: result.userId, orgId: result.orgId, scopes: result.scopes, authMethod: 'api_key' };
    }
    const { userId, orgId } = auth();
    if (userId) { return { userId, orgId, scopes: ['*'], authMethod: 'session' }; }
    return new Response(JSON.stringify({ error: 'Unauthorized' }), { status: 401, ... });
  }
  \<close>
  The failure response is the left summand, the context the right one.
\<close>

definition withAuth :: "services \<Rightarrow> request \<Rightarrow> response + auth_context" where
  "withAuth env req =
     (let apiKey = headers req ''x-api-key'';
          authHeader = headers req ''authorization''
      in case (if truthy apiKey then apiKey else None) of
           Some k \<Rightarrow>
             (let result = authenticateApiKey env k
              in if \<not> valid result
                 then Inl \<lparr>status = 401, body_error = r_error result\<rparr>
                 else Inr \<lparr>userId = r_userId result, orgId = r_orgId result,
                           scopes = r_scopes result, authMethod = api_key\<rparr>)
         | None \<Rightarrow>
             if truthy (auth_userId env)
             then Inr \<lparr>userId = auth_userId env, orgId = auth_orgId env,
                       scopes = Some [''*''], authMethod = session\<rparr>
             else Inl \<lparr>status = 401, body_error = Some ''Unauthorized''\<rparr>)"

section \<open>Key generation (the plan's key generation utility)\<close>

text \<open>
  \<^verbatim>\<open>Buffer.toString('base64url')\<close>: the URL-safe base 64 alphabet of RFC 4648, three
  bytes to four characters, a rest of two bytes to three characters and a rest of one
  byte to two, without padding.
\<close>

definition b64url_alphabet :: string where
  "b64url_alphabet = ''ABCDEFGHIJKLMNOPQRSTUVWXYZabcdefghijklmnopqrstuvwxyz0123456789-_''"

definition b64url_char :: "nat \<Rightarrow> char" where
  "b64url_char n = b64url_alphabet ! (n mod 64)"

fun base64url :: "8 word list \<Rightarrow> string" where
  "base64url (a # b # c # rest) =
     (let n = unat a * 65536 + unat b * 256 + unat c
      in [b64url_char (n div 262144), b64url_char (n div 4096), b64url_char (n div 64),
          b64url_char n] @ base64url rest)"
| "base64url [a, b] =
     (let n = unat a * 1024 + unat b * 4
      in [b64url_char (n div 4096), b64url_char (n div 64), b64url_char n])"
| "base64url [a] =
     (let n = unat a * 16 in [b64url_char (n div 64), b64url_char n])"
| "base64url [] = []"

text \<open>
  \<^verbatim>\<open>String.prototype.substring(start, end)\<close> on indices that are natural numbers: the
  two are swapped when \<open>start > end\<close> and both are cut at the length of the string.
\<close>

definition substring :: "string \<Rightarrow> nat \<Rightarrow> nat \<Rightarrow> string" where
  "substring s start end = (let lo = min start end; hi = max start end
                            in take (hi - lo) (drop lo s))"

text \<open>
  \<^verbatim>\<open>
  function generateAPIKey(): { key: string; prefix: string } {
    const bytes = randomBytes(32);
    const key = `mc_${bytes.toString('base64url')}`;
    const prefix = key.substring(0, 12); // mc_ + 8 chars
    return { key, prefix };
  }
  \<close>
  The bytes that \<^verbatim>\<open>randomBytes(32)\<close> draws are the argument.
\<close>

definition generateAPIKey :: "8 word list \<Rightarrow> string \<times> string" where
  "generateAPIKey bytes =
     (let key = ''mc_'' @ base64url bytes;
          prefix = substring key 0 12
      in (key, prefix))"


section \<open>Data model (the plan's interfaces and database schema)\<close>

text \<open>A \<^verbatim>\<open>Date\<close> or \<^verbatim>\<open>TIMESTAMPTZ\<close> is its number of milliseconds since the epoch.\<close>

type_synonym timestamp = int

datatype subject_type = user | organization

text \<open>
  The interface \<^verbatim>\<open>APIKey\<close> (table \<^verbatim>\<open>api_keys\<close>). Optional fields and nullable columns
  are options. The field \<^verbatim>\<open>id\<close> is \<open>id_key\<close> and the field \<^verbatim>\<open>scopes\<close> is
  \<open>key_scopes\<close> here; \<^verbatim>\<open>claims\<close>, a \<^verbatim>\<open>Record<string, any>\<close>, is a list of entries
  with the values as text. There is no field for the secret and none for a status.
\<close>

record APIKey =
  id_key :: string
  subject :: string
  subjectType :: subject_type
  name :: string
  description :: "string option"
  keyPrefix :: string
  keyHash :: string
  key_scopes :: "string list"
  claims :: "(string \<times> string) list option"
  createdBy :: string
  lastUsedAt :: "timestamp option"
  expiresAt :: "timestamp option"
  revokedAt :: "timestamp option"
  revokedBy :: "string option"
  revocationReason :: "string option"
  createdAt :: timestamp
  updatedAt :: timestamp

text \<open>
  The predicate of the partial index \<^verbatim>\<open>idx_api_keys_active\<close>:
  \<^verbatim>\<open>WHERE revoked_at IS NULL AND (expires_at IS NULL OR expires_at > NOW())\<close>.
  A comparison with \<^verbatim>\<open>NULL\<close> is unknown, and unknown in a disjunction with true is
  true, so the second disjunct matters only for a present \<^verbatim>\<open>expires_at\<close>.
\<close>

definition is_active :: "timestamp \<Rightarrow> APIKey \<Rightarrow> bool" where
  "is_active now k =
     (revokedAt k = None
      \<and> (case expiresAt k of None \<Rightarrow> True | Some e \<Rightarrow> e > now))"

text \<open>The kinds of audit events (column \<^verbatim>\<open>event_type\<close> of \<^verbatim>\<open>api_key_audit_log\<close>).\<close>

datatype event_type = created | used | revoked | auth_failed

record AuditEvent =
  api_key_id :: string
  event_kind :: event_type
  actor_id :: "string option"
  ip_address :: "string option"
  user_agent :: "string option"
  metadata :: "(string \<times> string) list"
  created_at :: timestamp

text \<open>The state of the engine: the table of keys in insertion order and the audit log.\<close>

record store =
  api_keys :: "APIKey list"
  audit_log :: "AuditEvent list"

text \<open>
  The typed failures of the spec's taxonomy, with \<^verbatim>\<open>key_not_found\<close> and the duplicate
  identifier of the error tables.
\<close>

datatype engine_error =
  InvalidKey | RevokedKey | ExpiredKey | InsufficientScope | RateLimited
  | ScopeExpansionRejected | AlreadyRevoked | DuplicateId | DuplicateSlug
  | EntropyUnavailable | IdentityUnverifiable | KeyNotFound

section \<open>Credential store, verifier and key lifecycle\<close>

text \<open>
  Modelled from the spec: the credential store, the audit recorder, the verifier and the
  key lifecycle manager are planned (packages/api-server) and have no code; the
  definitions of this section follow sections 4.2, 4.3, 4.6 and 4.7 of the spec over the
  data model above. The one-way hash of a secret is the parameter \<open>H\<close>.
\<close>

text \<open>
  Modelled from the spec: the store's lookup by identifier is missing; the first record
  with the identifier.
\<close>

definition lookup :: "store \<Rightarrow> string \<Rightarrow> APIKey option" where
  "lookup st kid = find (\<lambda>k. id_key k = kid) (api_keys st)"

text \<open>
  Modelled from the spec: \<^verbatim>\<open>insert(key)\<close> is missing; it fails with \<^verbatim>\<open>DuplicateId\<close> when
  the identifier is taken and appends the record otherwise.
\<close>

definition insert_key :: "store \<Rightarrow> APIKey \<Rightarrow> engine_error + store" where
  "insert_key st k =
     (case lookup st (id_key k) of
        Some _ \<Rightarrow> Inl DuplicateId
      | None \<Rightarrow> Inr (st\<lparr>api_keys := api_keys st @ [k]\<rparr>))"

text \<open>
  Modelled from the spec: \<^verbatim>\<open>findByPrefix(prefix)\<close> is missing; all records with the
  prefix, which is not unique.
\<close>

definition findByPrefix :: "store \<Rightarrow> string \<Rightarrow> APIKey list" where
  "findByPrefix st p = filter (\<lambda>k. keyPrefix k = p) (api_keys st)"

text \<open>
  Modelled from the spec: \<^verbatim>\<open>markRevoked(id, actor, reason, timestamp)\<close> is missing; a
  conditional update that sets the revocation fields only where \<^verbatim>\<open>revokedAt\<close> is absent
  (section 5).
\<close>

definition markRevoked ::
  "store \<Rightarrow> string \<Rightarrow> string \<Rightarrow> string option \<Rightarrow> timestamp \<Rightarrow> store" where
  "markRevoked st kid actor reason ts =
     st\<lparr>api_keys :=
          map (\<lambda>k. if id_key k = kid \<and> revokedAt k = None
                    then k\<lparr>revokedAt := Some ts, revokedBy := Some actor,
                           revocationReason := reason, updatedAt := ts\<rparr>
                    else k)
              (api_keys st)\<rparr>"

text \<open>Modelled from the spec: the audit recorder's \<^verbatim>\<open>record(event)\<close> is missing; it appends.\<close>

definition record_event :: "store \<Rightarrow> AuditEvent \<Rightarrow> store" where
  "record_event st ev = st\<lparr>audit_log := audit_log st @ [ev]\<rparr>"

definition audit_event ::
  "string \<Rightarrow> event_type \<Rightarrow> string option \<Rightarrow> timestamp \<Rightarrow> AuditEvent" where
  "audit_event kid kind actor ts =
     \<lparr>api_key_id = kid, event_kind = kind, actor_id = actor, ip_address = None,
      user_agent = None, metadata = [], created_at = ts\<rparr>"

text \<open>
  Modelled from the spec: the verifier's derivation of the prefix from a presented secret
  (step 1) is missing; the same leading substring that \<^verbatim>\<open>generateAPIKey\<close> takes.
\<close>

definition derive_prefix :: "string \<Rightarrow> string" where
  "derive_prefix secret = substring secret 0 12"

text \<open>
  Modelled from the spec: the verifier's steps 2 and 3 are missing; the first candidate
  with the prefix of the presented secret whose stored hash is the hash of the secret.
\<close>

definition first_match :: "(string \<Rightarrow> string) \<Rightarrow> store \<Rightarrow> string \<Rightarrow> APIKey option" where
  "first_match H st secret =
     find (\<lambda>k. keyHash k = H secret) (findByPrefix st (derive_prefix secret))"

text \<open>
  Modelled from the spec: the verifier is missing; steps 4 to 6 in their order: no match
  fails with \<^verbatim>\<open>InvalidKey\<close>, a revoked match with \<^verbatim>\<open>RevokedKey\<close>, then a match whose
  \<^verbatim>\<open>expiresAt\<close> is reached (the key is not active any more) with \<^verbatim>\<open>ExpiredKey\<close>;
  otherwise the record is returned. Step 7 is \<open>record_usage\<close> below.
\<close>

definition verify ::
  "(string \<Rightarrow> string) \<Rightarrow> store \<Rightarrow> timestamp \<Rightarrow> string \<Rightarrow> engine_error + APIKey" where
  "verify H st now secret =
     (case first_match H st secret of
        None \<Rightarrow> Inl InvalidKey
      | Some k \<Rightarrow>
          if revokedAt k \<noteq> None then Inl RevokedKey
          else (case expiresAt k of
                  None \<Rightarrow> Inr k
                | Some e \<Rightarrow> if e > now then Inr k else Inl ExpiredKey))"

text \<open>
  Modelled from the spec: the usage record of the verifier's step 7 is missing; it moves
  \<^verbatim>\<open>lastUsedAt\<close> forward and appends a \<^verbatim>\<open>used\<close> event.
\<close>

definition record_usage :: "store \<Rightarrow> string \<Rightarrow> timestamp \<Rightarrow> store" where
  "record_usage st kid ts =
     record_event
       (st\<lparr>api_keys :=
             map (\<lambda>k. if id_key k = kid
                       then k\<lparr>lastUsedAt :=
                                Some (case lastUsedAt k of None \<Rightarrow> ts | Some t \<Rightarrow> max t ts)\<rparr>
                       else k)
                 (api_keys st)\<rparr>)
       (audit_event kid used None ts)"

text \<open>The arguments of \<^verbatim>\<open>create\<close> that describe the key.\<close>

record create_input =
  c_actor :: string
  c_subject :: string
  c_subjectType :: subject_type
  c_name :: string
  c_description :: "string option"
  c_scopes :: "string list"
  c_claims :: "(string \<times> string) list option"
  c_expiry :: "timestamp option"

text \<open>
  Modelled from the spec: \<^verbatim>\<open>create\<close> of the key lifecycle manager is missing. The
  checks before the generation (the actor's authorization on the subject, the creation
  rate limit) are the argument \<open>refused\<close>: the failure of the first check that fails,
  if any. \<open>entropy\<close> is what the random source supplies, if anything; \<open>kid\<close> is the
  new identifier. The secret and the prefix come from \<^verbatim>\<open>generateAPIKey\<close>; the record keeps
  the hash of the secret and the prefix, a \<^verbatim>\<open>created\<close> event is recorded, and the record
  is returned with the secret.
\<close>

definition create ::
  "(string \<Rightarrow> string) \<Rightarrow> store \<Rightarrow> timestamp \<Rightarrow> engine_error option \<Rightarrow> 8 word list option
     \<Rightarrow> string \<Rightarrow> create_input \<Rightarrow> engine_error + (store \<times> APIKey \<times> string)" where
  "create H st now refused entropy kid inp =
     (case refused of
        Some e \<Rightarrow> Inl e
      | None \<Rightarrow>
          (case entropy of
             None \<Rightarrow> Inl EntropyUnavailable
           | Some bytes \<Rightarrow>
               (case generateAPIKey bytes of
                  (secret, prefix) \<Rightarrow>
                    (let k = \<lparr>id_key = kid, subject = c_subject inp,
                              subjectType = c_subjectType inp, name = c_name inp,
                              description = c_description inp, keyPrefix = prefix,
                              keyHash = H secret, key_scopes = c_scopes inp,
                              claims = c_claims inp, createdBy = c_actor inp,
                              lastUsedAt = None, expiresAt = c_expiry inp,
                              revokedAt = None, revokedBy = None, revocationReason = None,
                              createdAt = now, updatedAt = now\<rparr>
                     in case insert_key st k of
                          Inl e \<Rightarrow> Inl e
                        | Inr st' \<Rightarrow>
                            Inr (record_event st'
                                   (audit_event kid created (Some (c_actor inp)) now),
                                 k, secret)))))"

text \<open>The status filter of a listing.\<close>

datatype status_filter = Active | Revoked | Expired | AllKeys

text \<open>
  Modelled from the spec: the status of a listing filter is missing; it is computed from
  \<^verbatim>\<open>revokedAt\<close> and \<^verbatim>\<open>expiresAt\<close> at the read time: active is the predicate of the
  index, revoked is a present \<^verbatim>\<open>revokedAt\<close>, expired is an \<^verbatim>\<open>expiresAt\<close> that is reached.
\<close>

definition has_status :: "timestamp \<Rightarrow> status_filter \<Rightarrow> APIKey \<Rightarrow> bool" where
  "has_status now f k =
     (case f of
        Active \<Rightarrow> is_active now k
      | Revoked \<Rightarrow> (case revokedAt k of None \<Rightarrow> False | Some _ \<Rightarrow> True)
      | Expired \<Rightarrow>
          (case expiresAt k of None \<Rightarrow> False | Some e \<Rightarrow> if e > now then False else True)
      | AllKeys \<Rightarrow> True)"

text \<open>
  Modelled from the spec: \<^verbatim>\<open>list(subject, statusFilter, pagination)\<close> is missing; the
  keys of the subject with the status, in store order, cut to the page of \<open>limit\<close>
  records from \<open>offset\<close>.
\<close>

definition list_keys ::
  "store \<Rightarrow> string \<Rightarrow> status_filter \<Rightarrow> nat \<Rightarrow> nat \<Rightarrow> timestamp \<Rightarrow> APIKey list" where
  "list_keys st subj f limit offset now =
     take limit (drop offset
       (filter (\<lambda>k. subject k = subj \<and> has_status now f k) (api_keys st)))"

text \<open>The patch of an update: each of the four fields it may name is optional.\<close>

record key_patch =
  p_name :: "string option"
  p_description :: "string option"
  p_scopes :: "string list option"
  p_claims :: "(string \<times> string) list option"

definition is_subset :: "string list \<Rightarrow> string list \<Rightarrow> bool" where
  "is_subset xs ys = list_all (\<lambda>x. includes_arr ys x) xs"

definition apply_patch :: "timestamp \<Rightarrow> key_patch \<Rightarrow> APIKey \<Rightarrow> APIKey" where
  "apply_patch now p k =
     k\<lparr>name := (case p_name p of None \<Rightarrow> name k | Some n \<Rightarrow> n),
       description := (case p_description p of None \<Rightarrow> description k | Some d \<Rightarrow> Some d),
       key_scopes := (case p_scopes p of None \<Rightarrow> key_scopes k | Some ss \<Rightarrow> ss),
       claims := (case p_claims p of None \<Rightarrow> claims k | Some c \<Rightarrow> Some c),
       updatedAt := now\<rparr>"

text \<open>
  Modelled from the spec: \<^verbatim>\<open>update(actor, keyId, patch)\<close> is missing; it fails with
  \<^verbatim>\<open>ScopeExpansionRejected\<close> when the scopes of the patch are not a subset of the current
  scopes of the key and otherwise writes the fields the patch names.
\<close>

definition update ::
  "store \<Rightarrow> timestamp \<Rightarrow> string \<Rightarrow> string \<Rightarrow> key_patch \<Rightarrow> engine_error + store" where
  "update st now actor kid p =
     (case lookup st kid of
        None \<Rightarrow> Inl KeyNotFound
      | Some k \<Rightarrow>
          if (case p_scopes p of None \<Rightarrow> False | Some ss \<Rightarrow> \<not> is_subset ss (key_scopes k))
          then Inl ScopeExpansionRejected
          else Inr (st\<lparr>api_keys :=
                         map (\<lambda>k'. if id_key k' = kid then apply_patch now p k' else k')
                             (api_keys st)\<rparr>))"

text \<open>
  Modelled from the spec: \<^verbatim>\<open>revoke(actor, keyId, reason)\<close> is missing; it fails with
  \<^verbatim>\<open>AlreadyRevoked\<close> when the key is revoked and otherwise marks it revoked and records
  a \<^verbatim>\<open>revoked\<close> event.
\<close>

definition revoke ::
  "store \<Rightarrow> timestamp \<Rightarrow> string \<Rightarrow> string \<Rightarrow> string option \<Rightarrow> engine_error + store" where
  "revoke st now actor kid reason =
     (case lookup st kid of
        None \<Rightarrow> Inl KeyNotFound
      | Some k \<Rightarrow>
          if revokedAt k \<noteq> None then Inl AlreadyRevoked
          else Inr (record_event (markRevoked st kid actor reason now)
                      (audit_event kid revoked (Some actor) now)))"

text \<open>
  The operations that write the store, and a run of them: an operation that fails leaves
  the store as it is.
\<close>

datatype operation =
  Create timestamp "engine_error option" "8 word list option" string create_input
  | Update timestamp string string key_patch
  | Revoke timestamp string string "string option"
  | Usage string timestamp

fun apply_operation :: "(string \<Rightarrow> string) \<Rightarrow> store \<Rightarrow> operation \<Rightarrow> store" where
  "apply_operation H st (Create now refused entropy kid inp) =
     (case create H st now refused entropy kid inp of Inl _ \<Rightarrow> st | Inr (st', _) \<Rightarrow> st')"
| "apply_operation H st (Update now actor kid p) =
     (case update st now actor kid p of Inl _ \<Rightarrow> st | Inr st' \<Rightarrow> st')"
| "apply_operation H st (Revoke now actor kid reason) =
     (case revoke st now actor kid reason of Inl _ \<Rightarrow> st | Inr st' \<Rightarrow> st')"
| "apply_operation H st (Usage kid ts) = record_usage st kid ts"

fun run :: "(string \<Rightarrow> string) \<Rightarrow> store \<Rightarrow> operation list \<Rightarrow> store" where
  "run H st [] = st"
| "run H st (op # ops) = run H (apply_operation H st op) ops"

section \<open>Relations between stores, used in the proofs\<close>

text \<open>
  What every operation keeps of a record: its identifier, prefix and hash, and, once the
  record is revoked, its revocation fields.
\<close>

definition key_kept :: "APIKey \<Rightarrow> APIKey \<Rightarrow> bool" where
  "key_kept k k' \<longleftrightarrow>
     id_key k' = id_key k \<and> keyPrefix k' = keyPrefix k \<and> keyHash k' = keyHash k
     \<and> (revokedAt k \<noteq> None \<longrightarrow>
          revokedAt k' = revokedAt k \<and> revokedBy k' = revokedBy k
          \<and> revocationReason k' = revocationReason k)"

text \<open>
  A later store keeps an earlier one: it has the earlier records at the same positions,
  each kept in the sense above, and possibly more records after them.
\<close>

definition store_kept :: "store \<Rightarrow> store \<Rightarrow> bool" where
  "store_kept st st' \<longleftrightarrow>
     (\<exists>ks extra. api_keys st' = ks @ extra \<and> list_all2 key_kept (api_keys st) ks)"

text \<open>
  Two supplies of entropy leave the same imprint when neither supplies bytes, or when the
  secrets generated from them have the same hash and the same prefix.
\<close>

definition same_imprint ::
  "(string \<Rightarrow> string) \<Rightarrow> 8 word list option \<Rightarrow> 8 word list option \<Rightarrow> bool" where
  "same_imprint H e1 e2 =
     (case (e1, e2) of
        (None, None) \<Rightarrow> True
      | (Some b1, Some b2) \<Rightarrow>
          H (fst (generateAPIKey b1)) = H (fst (generateAPIKey b2))
          \<and> snd (generateAPIKey b1) = snd (generateAPIKey b2)
      | _ \<Rightarrow> False)"

text \<open>
  Two operations are alike when they are equal, or are the same creation up to entropy of
  the same imprint.
\<close>

fun alike :: "(string \<Rightarrow> string) \<Rightarrow> operation \<Rightarrow> operation \<Rightarrow> bool" where
  "alike H (Create now refused e1 kid inp) (Create now' refused' e2 kid' inp') =
     (now = now' \<and> refused = refused' \<and> kid = kid' \<and> inp = inp' \<and> same_imprint H e1 e2)"
| "alike H op1 op2 = (op1 = op2)"

section \<open>A worked example\<close>

text \<open>
  One key of an organization, created at time 1000 from 32 bytes of entropy (the 31 bytes
  below and a last byte), under a stand-in for the hash that keeps the first 20
  characters of a secret, so that two secrets can have the same hash.
\<close>

definition example_bytes :: "8 word list" where
  "example_bytes =
     [0x69, 0xb7, 0x1d, 0x79, 0xf8, 0x21, 0x8a, 0x39, 0x25, 0x9a, 0x7a, 0x29, 0xaa, 0xbb,
      0x2d, 0xba, 0xfc, 0x31, 0xcb, 0x30, 0x01, 0x08, 0x31, 0x05, 0x18, 0x72, 0x09, 0x28,
      0xb3, 0x0d, 0x38]"

definition example_hash :: "string \<Rightarrow> string" where
  "example_hash secret = take 20 secret"

definition example_input :: create_input where
  "example_input =
     \<lparr>c_actor = ''user_abc123'', c_subject = ''org_xyz789'', c_subjectType = organization,
      c_name = ''Production CI/CD'', c_description = None, c_scopes = [''projects:read''],
      c_claims = None, c_expiry = None\<rparr>"

definition example_key :: APIKey where
  "example_key =
     \<lparr>id_key = ''key_1'', subject = ''org_xyz789'', subjectType = organization,
      name = ''Production CI/CD'', description = None, keyPrefix = ''mc_abcdefghi'',
      keyHash = ''mc_abcdefghijklmnopq'', key_scopes = [''projects:read''], claims = None,
      createdBy = ''user_abc123'', lastUsedAt = None, expiresAt = None, revokedAt = None,
      revokedBy = None, revocationReason = None, createdAt = 1000, updatedAt = 1000\<rparr>"

definition example_store :: store where
  "example_store =
     \<lparr>api_keys = [example_key],
      audit_log = [audit_event ''key_1'' created (Some ''user_abc123'') 1000]\<rparr>"

definition example_secret :: string where
  "example_secret = ''mc_abcdefghijklmnopqrstuvwxyzABCDEFGHIJKLMNOPQ''"

section \<open>Properties of the scope evaluator\<close>

lemma split_acc_first:
  "first_elem (split_acc sep cur s) = rev cur @ takeWhile (\<lambda>c. c \<noteq> sep) s"
  by (induction s arbitrary: cur) (simp_all add: first_elem_def)

lemma split_first: "first_elem (split_str s (CHR '':'')) = resource_of s"
  by (simp add: split_str_def resource_of_def split_acc_first)

lemma split_acc_nonempty: "split_acc sep cur s \<noteq> []"
  by (induction s arbitrary: cur) simp_all

lemma includes_arr_set: "includes_arr xs x \<longleftrightarrow> x \<in> set xs"
  by (induction xs) auto

lemma hasScope_Some:
  "hasScope (Some granted) r \<longleftrightarrow>
     ''*'' \<in> set granted \<or> r \<in> set granted \<or> (resource_of r @ '':*'') \<in> set granted"
  by (simp add: hasScope_def includes_arr_set split_first Let_def)

lemma hasScope_wildcard: "hasScope (Some [''*'']) r"
  by (simp add: hasScope_Some)

lemma resource_of_no_separator: "CHR '':'' \<notin> set r \<Longrightarrow> resource_of r = r"
  unfolding resource_of_def by (induction r) auto

lemma resource_of_separator:
  "CHR '':'' \<notin> set res \<Longrightarrow> resource_of (res @ CHR '':'' # rest) = res"
  unfolding resource_of_def by (induction res) auto

text \<open>
  C1. For every granted scope set and every required scope, the evaluator returns true
  exactly when the grant contains the global wildcard, or the required scope itself, or
  the resource of the required scope followed by colon and star. The resource is the part
  of the required scope before its first colon: for a scope made of a part without
  colon, a colon and a rest, it is that part. The three examples of the spec are
  instances: a resource wildcard grants an action of that resource, a grant of one action
  does not grant another, and the global wildcard grants everything.
\<close>

theorem hasScope_rule:
  "(hasScope (Some granted) requiredScope \<longleftrightarrow>
      ''*'' \<in> set granted \<or> requiredScope \<in> set granted
      \<or> (resource_of requiredScope @ '':*'') \<in> set granted)
   \<and> (CHR '':'' \<notin> set res \<longrightarrow>
        (hasScope (Some granted) (res @ CHR '':'' # rest) \<longleftrightarrow>
           ''*'' \<in> set granted \<or> (res @ CHR '':'' # rest) \<in> set granted
           \<or> (res @ '':*'') \<in> set granted))
   \<and> hasScope (Some [''projects:*'']) ''projects:read'' = True
   \<and> hasScope (Some [''projects:read'']) ''projects:write'' = False
   \<and> hasScope (Some [''*'']) s = True"
  by (simp add: hasScope_Some resource_of_separator) (simp add: resource_of_def)

theorem hasScope_rule_witness:
  "CHR '':'' \<notin> set ''exports''
   \<and> hasScope (Some [''projects:read'', ''exports:*'']) (''exports'' @ CHR '':'' # ''write'')
   \<and> \<not> hasScope (Some [''projects:read'', ''exports:*'']) ''projects:write''"
  using hasScope_rule [of "[''projects:read'', ''exports:*'']" "''projects:write''"
      "''exports''" "''write''"]
  by (simp add: resource_of_def)

text \<open>
  C10. With an absent granted scope set the evaluator returns false for every required
  scope; it does not raise.
\<close>

theorem hasScope_undefined: "hasScope None requiredScope = False"
  by (simp add: hasScope_def)

text \<open>
  C4, as the code has it. A required scope without separator is its own resource, so it
  is satisfied exactly when the grant contains the global wildcard, the scope itself, or
  the scope followed by colon and star.
\<close>

theorem hasScope_no_separator:
  "CHR '':'' \<notin> set requiredScope \<Longrightarrow>
     hasScope (Some granted) requiredScope \<longleftrightarrow>
       ''*'' \<in> set granted \<or> requiredScope \<in> set granted
       \<or> (requiredScope @ '':*'') \<in> set granted"
  by (simp add: hasScope_Some resource_of_no_separator)

theorem hasScope_no_separator_witness:
  "CHR '':'' \<notin> set ''projects'' \<and> hasScope (Some [''projects:*'']) ''projects''"
  using hasScope_no_separator [of "''projects''" "[''projects:*'']"] by simp

text \<open>
  C4, as the spec states it, fails: the grant of the resource wildcard of projects
  contains neither the global wildcard nor the separator-less scope projects, and still
  satisfies it.
\<close>

theorem hasScope_no_separator_counterexample:
  "CHR '':'' \<notin> set ''projects'' \<and> ''*'' \<notin> set [''projects:*'']
   \<and> ''projects'' \<notin> set [''projects:*'']
   \<and> hasScope (Some [''projects:*'']) ''projects'' = True"
  by (simp add: hasScope_Some resource_of_def)

text \<open>
  C9. A request without API-key header on a valid interactive session (the session has a
  user) gets the context of that user with the scope set of the global wildcard alone,
  and every scope check on that set succeeds.
\<close>

theorem withAuth_session_all_scopes:
  assumes "headers req ''x-api-key'' = None" and "auth_userId env = Some u" and "u \<noteq> []"
  shows "\<exists>ctx. withAuth env req = Inr ctx
           \<and> ctx = \<lparr>userId = Some u, orgId = auth_orgId env,
                    scopes = Some [''*''], authMethod = session\<rparr>
           \<and> (\<forall>requiredScope. hasScope (scopes ctx) requiredScope)"
proof -
  have ret: "withAuth env req = Inr \<lparr>userId = Some u, orgId = auth_orgId env,
                                      scopes = Some [''*''], authMethod = session\<rparr>"
    using assms by (simp add: withAuth_def truthy_def)
  have all: "\<forall>requiredScope. hasScope (Some [''*'']) requiredScope"
    by (intro allI hasScope_wildcard)
  show ?thesis
    unfolding ret using all by auto
qed

theorem withAuth_session_all_scopes_witness:
  "withAuth \<lparr>verifyKey = (\<lambda>k. VerifyError ''unused''), getUser = (\<lambda>u. True),
             getOrganizationMembershipList = (\<lambda>u. None),
             auth_userId = Some ''user_123'', auth_orgId = Some ''org_xyz''\<rparr>
            \<lparr>headers = Map.empty\<rparr>
     = Inr \<lparr>userId = Some ''user_123'', orgId = Some ''org_xyz'',
            scopes = Some [''*''], authMethod = session\<rparr>
   \<and> hasScope (Some [''*'']) ''exports:write''"
  using withAuth_session_all_scopes
    [of "\<lparr>headers = Map.empty\<rparr>"
        "\<lparr>verifyKey = (\<lambda>k. VerifyError ''unused''), getUser = (\<lambda>u. True),
          getOrganizationMembershipList = (\<lambda>u. None),
          auth_userId = Some ''user_123'', auth_orgId = Some ''org_xyz''\<rparr>"
        "''user_123''"]
  by simp

section \<open>Properties of key generation\<close>

lemma length_base64url: "length (base64url bs) = (4 * length bs + 2) div 3"
  by (induction bs rule: base64url.induct) (simp_all add: Let_def)

lemma substring_0: "substring s 0 n = take n s"
  by (simp add: substring_def)

text \<open>
  C8. For the key generated from any 32 random bytes, the prefix is the first 12
  characters of the key (the tag \<^verbatim>\<open>mc_\<close> and the 9 characters after it), so it has the
  fixed length 12 and the key is the prefix followed by a rest. The prefix is a function
  of the key alone: taking the substring again from the same key gives the same prefix.
\<close>

theorem generateAPIKey_prefix:
  assumes "length bytes = 32"
  shows "case generateAPIKey bytes of (key, prefix) \<Rightarrow>
           prefix = substring key 0 12 \<and> prefix = take 12 key
           \<and> length prefix = 12 \<and> length key = 46
           \<and> take 3 prefix = ''mc_'' \<and> (\<exists>rest. key = prefix @ rest)"
proof -
  have len: "length (base64url bytes) = 43"
    using assms by (simp add: length_base64url)
  have split: "\<exists>rest. xs = take 12 xs @ rest" for xs :: string
    by (metis append_take_drop_id)
  show ?thesis
    using len split [of "''mc_'' @ base64url bytes"]
    by (simp add: generateAPIKey_def Let_def substring_0)
qed

theorem generateAPIKey_prefix_witness:
  "length [0x69, 0xb7, 0x1d, 0x79, 0xf8, 0x21, 0x8a, 0x39, 0x25, 0x9a, 0x7a, 0x29, 0xaa,
           0xbb, 0x2d, 0xba, 0xfc, 0x31, 0xcb, 0x30, 0x01, 0x08, 0x31, 0x05, 0x18, 0x72,
           0x09, 0x28, 0xb3, 0x0d, 0x38, 0xf4 :: 8 word] = 32
   \<and> generateAPIKey
        [0x69, 0xb7, 0x1d, 0x79, 0xf8, 0x21, 0x8a, 0x39, 0x25, 0x9a, 0x7a, 0x29, 0xaa,
         0xbb, 0x2d, 0xba, 0xfc, 0x31, 0xcb, 0x30, 0x01, 0x08, 0x31, 0x05, 0x18, 0x72,
         0x09, 0x28, 0xb3, 0x0d, 0x38, 0xf4]
      = (''mc_abcdefghijklmnopqrstuvwxyzABCDEFGHIJKLMNOPQ'', ''mc_abcdefghi'')"
  using generateAPIKey_prefix
    [of "[0x69, 0xb7, 0x1d, 0x79, 0xf8, 0x21, 0x8a, 0x39, 0x25, 0x9a, 0x7a, 0x29, 0xaa,
          0xbb, 0x2d, 0xba, 0xfc, 0x31, 0xcb, 0x30, 0x01, 0x08, 0x31, 0x05, 0x18, 0x72,
          0x09, 0x28, 0xb3, 0x0d, 0x38, 0xf4]"]
  by (simp add: generateAPIKey_def Let_def substring_def b64url_char_def
      b64url_alphabet_def)

lemma authenticateApiKey_not_valid:
  "verifyKey env apiKey = VerifyResult False meta \<Longrightarrow>
     authenticateApiKey env apiKey = invalid_result ''Invalid or revoked API key''"
  by (simp add: authenticateApiKey_def)

section \<open>Lists, lookups and the worked example\<close>

lemma in_set_page:
  assumes "x \<in> set xs" and "0 < limit"
  shows "\<exists>offset. x \<in> set (take limit (drop offset xs))"
proof -
  from assms(1) obtain i where i: "i < length xs" "xs ! i = x"
    by (auto simp: in_set_conv_nth)
  then have "drop i xs = x # drop (Suc i) xs"
    by (metis Cons_nth_drop_Suc)
  moreover from assms(2) obtain n where "limit = Suc n"
    by (cases limit) auto
  ultimately have "x \<in> set (take limit (drop i xs))" by simp
  then show ?thesis ..
qed

lemma is_subset_set: "is_subset xs ys \<longleftrightarrow> set xs \<subseteq> set ys"
  by (auto simp: is_subset_def list_all_iff includes_arr_set)

lemma find_map_pres:
  "(\<And>x. P (f x) = P x) \<Longrightarrow> find P (map f xs) = map_option f (find P xs)"
  by (induction xs) auto

lemma find_filter: "find Q (filter R xs) = find (\<lambda>x. R x \<and> Q x) xs"
  by (induction xs) auto

lemma lookup_Some_id: "lookup st kid = Some k \<Longrightarrow> id_key k = kid \<and> k \<in> set (api_keys st)"
  unfolding lookup_def by (auto simp: find_Some_iff)

lemma find_append_last:
  "find P xs = None \<Longrightarrow> P y \<Longrightarrow> find P (xs @ [y]) = Some y"
  by (induction xs) (auto split: if_splits)

lemma first_match_find:
  "first_match H st secret
   = find (\<lambda>k. keyPrefix k = derive_prefix secret \<and> keyHash k = H secret) (api_keys st)"
  by (simp add: first_match_def findByPrefix_def find_filter)

lemma example_generate_f4: "generateAPIKey (example_bytes @ [0xf4]) = (example_secret, ''mc_abcdefghi'')"
  by (simp add: generateAPIKey_def Let_def substring_def example_bytes_def example_secret_def
      b64url_char_def b64url_alphabet_def)

lemma example_generate_f5:
  "generateAPIKey (example_bytes @ [0xf5])
   = (''mc_abcdefghijklmnopqrstuvwxyzABCDEFGHIJKLMNOPU'', ''mc_abcdefghi'')"
  by (simp add: generateAPIKey_def Let_def substring_def example_bytes_def
      b64url_char_def b64url_alphabet_def)

lemma example_create:
  "create example_hash \<lparr>api_keys = [], audit_log = []\<rparr> 1000 None
     (Some (example_bytes @ [0xf4])) ''key_1'' example_input
   = Inr (example_store, example_key, example_secret)"
  by (simp add: create_def example_generate_f4 Let_def insert_key_def lookup_def
      record_event_def example_store_def example_key_def example_input_def example_hash_def
      example_secret_def)

lemma example_lookup: "lookup example_store ''key_1'' = Some example_key"
  by (simp add: lookup_def example_store_def example_key_def)

lemma example_first_match:
  "first_match example_hash (example_store\<lparr>api_keys := [k]\<rparr>) example_secret
   = (if keyPrefix k = ''mc_abcdefghi'' \<and> keyHash k = ''mc_abcdefghijklmnopq'' then Some k else None)"
  by (simp add: first_match_def findByPrefix_def derive_prefix_def substring_def
      example_secret_def example_hash_def)

section \<open>Status of a key and listings\<close>

lemma is_active_iff:
  "is_active now k \<longleftrightarrow>
     revokedAt k = None \<and> (expiresAt k = None \<or> (\<exists>e. expiresAt k = Some e \<and> e > now))"
  by (auto simp: is_active_def split: option.splits)

lemma list_keys_subset:
  "k \<in> set (list_keys st subj f limit offset now) \<Longrightarrow>
     k \<in> set (api_keys st) \<and> subject k = subj \<and> has_status now f k"
  unfolding list_keys_def
  by (auto dest!: in_set_takeD in_set_dropD)

text \<open>
  C5. A key is active at a read time exactly when its \<^verbatim>\<open>revokedAt\<close> is absent and its
  \<^verbatim>\<open>expiresAt\<close> is absent or later than the read time. The status of a listing filter
  is a function of these two fields and the read time (two records that agree on the
  fields have the same status; the record has no status field). Every key on a page of
  the active listing is active, so a revoked key is on no page of the active listing;
  and a revoked key of the store is on some page of the revoked listing of its subject.
\<close>

theorem status_from_timestamps:
  "(is_active now k \<longleftrightarrow>
      revokedAt k = None \<and> (expiresAt k = None \<or> (\<exists>e. expiresAt k = Some e \<and> e > now)))
   \<and> (has_status now Active k \<longleftrightarrow> is_active now k)
   \<and> (revokedAt k = revokedAt k' \<and> expiresAt k = expiresAt k'
        \<longrightarrow> has_status now f k = has_status now f k')
   \<and> (k \<in> set (list_keys st subj Active limit offset now) \<longrightarrow> is_active now k)
   \<and> (revokedAt k \<noteq> None \<longrightarrow> k \<notin> set (list_keys st subj Active limit offset now))
   \<and> (revokedAt k \<noteq> None \<and> k \<in> set (api_keys st) \<and> 0 < limit
        \<longrightarrow> (\<exists>page. k \<in> set (list_keys st (subject k) Revoked limit page now)))"
proof (intro conjI impI)
  show "is_active now k \<longleftrightarrow>
      revokedAt k = None \<and> (expiresAt k = None \<or> (\<exists>e. expiresAt k = Some e \<and> e > now))"
    by (rule is_active_iff)
  show "has_status now Active k \<longleftrightarrow> is_active now k"
    by (simp add: has_status_def)
  show "has_status now f k = has_status now f k'"
    if "revokedAt k = revokedAt k' \<and> expiresAt k = expiresAt k'"
    using that by (cases f) (simp_all add: has_status_def is_active_def)
  show "is_active now k" if "k \<in> set (list_keys st subj Active limit offset now)"
    using list_keys_subset [OF that] by (simp add: has_status_def)
  show "k \<notin> set (list_keys st subj Active limit offset now)" if "revokedAt k \<noteq> None"
    using that list_keys_subset [of k st subj Active limit offset now]
    by (auto simp: has_status_def is_active_def)
  show "\<exists>page. k \<in> set (list_keys st (subject k) Revoked limit page now)"
    if "revokedAt k \<noteq> None \<and> k \<in> set (api_keys st) \<and> 0 < limit"
  proof -
    from that have "k \<in> set (filter (\<lambda>x. subject x = subject k \<and> has_status now Revoked x)
                              (api_keys st))"
      by (auto simp: has_status_def)
    with that show ?thesis
      unfolding list_keys_def by (intro in_set_page) auto
  qed
qed

theorem status_from_timestamps_witness:
  "is_active 4000 example_key
   \<and> revokedAt (example_key\<lparr>revokedAt := Some 3000\<rparr>) \<noteq> None
   \<and> example_key\<lparr>revokedAt := Some 3000\<rparr>
       \<in> set (api_keys (example_store\<lparr>api_keys := [example_key\<lparr>revokedAt := Some 3000\<rparr>]\<rparr>))
   \<and> \<not> is_active 4000 (example_key\<lparr>revokedAt := Some 3000\<rparr>)
   \<and> example_key\<lparr>revokedAt := Some 3000\<rparr>
       \<notin> set (list_keys (example_store\<lparr>api_keys := [example_key\<lparr>revokedAt := Some 3000\<rparr>]\<rparr>)
                ''org_xyz789'' Active 20 0 4000)
   \<and> (\<exists>page. example_key\<lparr>revokedAt := Some 3000\<rparr>
         \<in> set (list_keys (example_store\<lparr>api_keys := [example_key\<lparr>revokedAt := Some 3000\<rparr>]\<rparr>)
                  (subject (example_key\<lparr>revokedAt := Some 3000\<rparr>)) Revoked 20 page 4000))"
proof -
  have a: "revokedAt example_key = None \<and> expiresAt example_key = None"
    by (simp add: example_key_def)
  have r: "revokedAt (example_key\<lparr>revokedAt := Some 3000\<rparr>) \<noteq> None
           \<and> example_key\<lparr>revokedAt := Some 3000\<rparr>
               \<in> set (api_keys (example_store\<lparr>api_keys := [example_key\<lparr>revokedAt := Some 3000\<rparr>]\<rparr>))
           \<and> (0::nat) < 20"
    by simp
  let ?k = "example_key\<lparr>revokedAt := Some 3000\<rparr>"
  let ?st = "example_store\<lparr>api_keys := [?k]\<rparr>"
  from a status_from_timestamps
    [of 4000 example_key example_key Active example_store "''org_xyz789''" 20 0]
  have act: "is_active 4000 example_key"
    by blast
  note inst = status_from_timestamps [of 4000 ?k ?k Active ?st "''org_xyz789''" 20 0]
  from inst r have inact: "\<not> is_active 4000 ?k"
    by blast
  from inst r have out: "?k \<notin> set (list_keys ?st ''org_xyz789'' Active 20 0 4000)"
    by blast
  from inst r have "\<exists>page. ?k \<in> set (list_keys ?st (subject ?k) Revoked 20 page 4000)"
    by blast
  with act r inact out show ?thesis
    by blast
qed

section \<open>Updates\<close>

lemma id_key_apply_patch: "id_key (apply_patch now p k) = id_key k"
  by (simp add: apply_patch_def)

lemma lookup_update:
  assumes "lookup st kid = Some k"
  shows "lookup (st\<lparr>api_keys := map (\<lambda>k'. if id_key k' = kid then apply_patch now p k' else k')
                                  (api_keys st)\<rparr>) kid = Some (apply_patch now p k)"
proof -
  have "find (\<lambda>k. id_key k = kid)
          (map (\<lambda>k'. if id_key k' = kid then apply_patch now p k' else k') (api_keys st))
        = map_option (\<lambda>k'. if id_key k' = kid then apply_patch now p k' else k')
            (find (\<lambda>k. id_key k = kid) (api_keys st))"
    by (rule find_map_pres) (simp add: id_key_apply_patch)
  with assms lookup_Some_id [OF assms] show ?thesis
    by (simp add: lookup_def)
qed

lemma apply_patch_fields:
  "(apply_patch now p k)\<lparr>name := name k, description := description k,
      key_scopes := key_scopes k, claims := claims k, updatedAt := updatedAt k\<rparr> = k"
  by (simp add: apply_patch_def)

text \<open>
  C7. For a key of the store and any patch: the update fails with
  \<^verbatim>\<open>ScopeExpansionRejected\<close> whenever the scopes of the patch are not a subset of the
  current scopes of the key; an update that succeeds changes nothing of the key but its
  name, description, scopes, claims and update time, and its new scopes are among the
  old ones. In particular a key with the one scope \<^verbatim>\<open>projects:read\<close> rejects a patch to
  \<^verbatim>\<open>projects:read\<close> and \<^verbatim>\<open>exports:write\<close>, and a patch to the empty scope set succeeds
  on every key.
\<close>

theorem update_scope_narrowing:
  assumes "lookup st kid = Some k"
  shows "(p_scopes p = Some ss \<and> \<not> set ss \<subseteq> set (key_scopes k)
            \<longrightarrow> update st now actor kid p = Inl ScopeExpansionRejected)
       \<and> (update st now actor kid p = Inr st' \<longrightarrow>
            (\<exists>k'. lookup st' kid = Some k'
               \<and> k'\<lparr>name := name k, description := description k,
                     key_scopes := key_scopes k, claims := claims k,
                     updatedAt := updatedAt k\<rparr> = k
               \<and> set (key_scopes k') \<subseteq> set (key_scopes k)))
       \<and> (key_scopes k = [''projects:read'']
            \<longrightarrow> update st now actor kid
                  \<lparr>p_name = None, p_description = None,
                   p_scopes = Some [''projects:read'', ''exports:write''], p_claims = None\<rparr>
                = Inl ScopeExpansionRejected)
       \<and> (\<exists>st'. update st now actor kid
                  \<lparr>p_name = None, p_description = None, p_scopes = Some [], p_claims = None\<rparr>
                = Inr st'
              \<and> (\<exists>k'. lookup st' kid = Some k' \<and> key_scopes k' = []))"
proof (intro conjI impI)
  assume "p_scopes p = Some ss \<and> \<not> set ss \<subseteq> set (key_scopes k)"
  with assms show "update st now actor kid p = Inl ScopeExpansionRejected"
    by (simp add: update_def is_subset_set)
next
  assume ok: "update st now actor kid p = Inr st'"
  then have st': "st' = st\<lparr>api_keys :=
       map (\<lambda>k'. if id_key k' = kid then apply_patch now p k' else k') (api_keys st)\<rparr>"
    and sub: "\<And>ss. p_scopes p = Some ss \<Longrightarrow> set ss \<subseteq> set (key_scopes k)"
    using assms by (auto simp: update_def is_subset_set split: if_splits option.splits)
  have "lookup st' kid = Some (apply_patch now p k)"
    unfolding st' by (rule lookup_update [OF assms])
  moreover have "set (key_scopes (apply_patch now p k)) \<subseteq> set (key_scopes k)"
    using sub by (cases "p_scopes p") (simp_all add: apply_patch_def)
  ultimately show "\<exists>k'. lookup st' kid = Some k'
      \<and> k'\<lparr>name := name k, description := description k, key_scopes := key_scopes k,
            claims := claims k, updatedAt := updatedAt k\<rparr> = k
      \<and> set (key_scopes k') \<subseteq> set (key_scopes k)"
    using apply_patch_fields [where now = now and p = p and k = k] by blast
next
  assume "key_scopes k = [''projects:read'']"
  with assms show "update st now actor kid
      \<lparr>p_name = None, p_description = None,
       p_scopes = Some [''projects:read'', ''exports:write''], p_claims = None\<rparr>
    = Inl ScopeExpansionRejected"
    by (simp add: update_def is_subset_set)
next
  let ?p = "\<lparr>p_name = None, p_description = None, p_scopes = Some [], p_claims = None\<rparr>"
  let ?st' = "st\<lparr>api_keys :=
       map (\<lambda>k'. if id_key k' = kid then apply_patch now ?p k' else k') (api_keys st)\<rparr>"
  have "update st now actor kid ?p = Inr ?st'"
    using assms by (simp add: update_def is_subset_set)
  moreover have "lookup ?st' kid = Some (apply_patch now ?p k)"
    by (rule lookup_update [OF assms])
  moreover have "key_scopes (apply_patch now ?p k) = []"
    by (simp add: apply_patch_def)
  ultimately show "\<exists>st'. update st now actor kid ?p = Inr st'
      \<and> (\<exists>k'. lookup st' kid = Some k' \<and> key_scopes k' = [])"
    by blast
qed

theorem update_scope_narrowing_witness:
  "lookup example_store ''key_1'' = Some example_key
   \<and> key_scopes example_key = [''projects:read'']
   \<and> update example_store 2000 ''user_abc123'' ''key_1''
        \<lparr>p_name = None, p_description = None,
         p_scopes = Some [''projects:read'', ''exports:write''], p_claims = None\<rparr>
      = Inl ScopeExpansionRejected
   \<and> (\<exists>st'. update example_store 2000 ''user_abc123'' ''key_1''
               \<lparr>p_name = None, p_description = None, p_scopes = Some [], p_claims = None\<rparr>
             = Inr st'
           \<and> (\<exists>k'. lookup st' ''key_1'' = Some k' \<and> key_scopes k' = []))"
proof -
  have scopes: "key_scopes example_key = [''projects:read'']"
    by (simp add: example_key_def)
  from update_scope_narrowing [OF example_lookup, of _ _ 2000 "''user_abc123''"]
    example_lookup scopes
  show ?thesis by blast
qed

section \<open>What the operations keep\<close>

lemma key_kept_refl: "key_kept k k"
  by (simp add: key_kept_def)

lemma key_kept_trans: "key_kept a b \<Longrightarrow> key_kept b c \<Longrightarrow> key_kept a c"
  by (auto simp: key_kept_def)

lemma store_kept_refl: "store_kept st st"
proof -
  have "list_all2 key_kept (api_keys st) (api_keys st)"
    by (simp add: list_all2_same key_kept_refl)
  then have "api_keys st = api_keys st @ [] \<and> list_all2 key_kept (api_keys st) (api_keys st)"
    by simp
  then show ?thesis unfolding store_kept_def by blast
qed

lemma store_kept_trans:
  assumes "store_kept a b" and "store_kept b c"
  shows "store_kept a c"
proof -
  from assms(1) obtain ks e1 where b: "api_keys b = ks @ e1" "list_all2 key_kept (api_keys a) ks"
    unfolding store_kept_def by blast
  from assms(2) obtain ks' e2 where c: "api_keys c = ks' @ e2" "list_all2 key_kept (api_keys b) ks'"
    unfolding store_kept_def by blast
  from c(2) b(1) obtain us vs where uv: "ks' = us @ vs" "list_all2 key_kept ks us"
    by (auto simp: list_all2_append1)
  have "list_all2 key_kept (api_keys a) us"
    using b(2) uv(2) by (rule list_all2_trans [rotated]) (rule key_kept_trans)
  moreover have "api_keys c = us @ (vs @ e2)"
    using c(1) uv(1) by simp
  ultimately show ?thesis unfolding store_kept_def by blast
qed

lemma store_kept_map:
  assumes "\<And>k. key_kept k (f k)"
  shows "store_kept st (st\<lparr>api_keys := map f (api_keys st)\<rparr>)"
proof -
  have "list_all2 key_kept (api_keys st) (map f (api_keys st))"
    by (simp add: list_all2_map2 list_all2_same assms)
  then have "map f (api_keys st) = map f (api_keys st) @ []
             \<and> list_all2 key_kept (api_keys st) (map f (api_keys st))"
    by simp
  then show ?thesis unfolding store_kept_def by (simp del: append_Nil2) blast
qed

lemma store_kept_append: "store_kept st (st\<lparr>api_keys := api_keys st @ [k]\<rparr>)"
proof -
  have "list_all2 key_kept (api_keys st) (api_keys st)"
    by (simp add: list_all2_same key_kept_refl)
  then show ?thesis unfolding store_kept_def by auto
qed

lemma store_kept_record_event: "store_kept st st' \<Longrightarrow> store_kept st (record_event st' ev)"
  by (simp add: store_kept_def record_event_def)

lemma store_kept_markRevoked: "store_kept st (markRevoked st kid actor reason ts)"
  unfolding markRevoked_def by (rule store_kept_map) (simp add: key_kept_def)

lemma store_kept_revoke: "revoke st now actor kid reason = Inr st' \<Longrightarrow> store_kept st st'"
  by (auto simp: revoke_def store_kept_record_event store_kept_markRevoked
      split: option.splits if_splits)

lemma store_kept_update: "update st now actor kid p = Inr st' \<Longrightarrow> store_kept st st'"
  by (auto simp: update_def key_kept_def apply_patch_def intro!: store_kept_map
      split: option.splits if_splits)

lemma store_kept_create:
  "create H st now refused entropy kid inp = Inr (st', k, secret) \<Longrightarrow> store_kept st st'"
  by (auto simp: create_def insert_key_def Let_def store_kept_record_event store_kept_append
      split: option.splits prod.splits sum.splits)

lemma store_kept_record_usage: "store_kept st (record_usage st kid ts)"
  unfolding record_usage_def
  by (intro store_kept_record_event store_kept_map) (simp add: key_kept_def)

lemma store_kept_apply_operation: "store_kept st (apply_operation H st op)"
proof (cases op)
  case (Create now refused entropy kid inp)
  then show ?thesis
    by (auto simp: store_kept_refl store_kept_create split: sum.splits)
next
  case (Update now actor kid p)
  then show ?thesis
    by (auto simp: store_kept_refl store_kept_update split: sum.splits)
next
  case (Revoke now actor kid reason)
  then show ?thesis
    by (auto simp: store_kept_refl store_kept_revoke split: sum.splits)
next
  case (Usage kid ts)
  then show ?thesis by (simp add: store_kept_record_usage)
qed

lemma store_kept_run: "store_kept st (run H st ops)"
proof (induction ops arbitrary: st)
  case Nil
  show ?case by (simp add: store_kept_refl)
next
  case (Cons op ops)
  have "store_kept st (apply_operation H st op)"
    by (rule store_kept_apply_operation)
  moreover have "store_kept (apply_operation H st op) (run H (apply_operation H st op) ops)"
    by (rule Cons.IH)
  ultimately show ?case by (simp add: store_kept_trans)
qed

lemma find_kept:
  assumes "list_all2 key_kept xs ys" and "\<And>x y. key_kept x y \<Longrightarrow> P y = P x"
    and "find P xs = Some x"
  shows "\<exists>y. find P (ys @ extra) = Some y \<and> key_kept x y"
  using assms(1,3)
proof (induction xs ys rule: list_all2_induct)
  case Nil
  then show ?case by simp
next
  case (Cons a xs b ys)
  show ?case
  proof (cases "P a")
    case True
    with Cons.hyps(1) assms(2) [of a b] Cons.prems show ?thesis by simp
  next
    case False
    with Cons.hyps(1) assms(2) [of a b] Cons.prems Cons.IH show ?thesis by simp
  qed
qed

lemma lookup_kept:
  assumes "store_kept st st'" and "lookup st kid = Some k"
  shows "\<exists>k'. lookup st' kid = Some k' \<and> key_kept k k'"
proof -
  from assms(1) obtain ks extra where
    st': "api_keys st' = ks @ extra" and rel: "list_all2 key_kept (api_keys st) ks"
    unfolding store_kept_def by blast
  have "\<exists>y. find (\<lambda>k. id_key k = kid) (ks @ extra) = Some y \<and> key_kept k y"
    using rel _ assms(2) [unfolded lookup_def]
    by (rule find_kept) (simp add: key_kept_def)
  then show ?thesis by (simp add: lookup_def st')
qed

lemma first_match_kept:
  assumes "store_kept st st'" and "first_match H st secret = Some k"
  shows "\<exists>k'. first_match H st' secret = Some k' \<and> key_kept k k'"
proof -
  from assms(1) obtain ks extra where
    st': "api_keys st' = ks @ extra" and rel: "list_all2 key_kept (api_keys st) ks"
    unfolding store_kept_def by blast
  let ?P = "\<lambda>k. keyPrefix k = derive_prefix secret \<and> keyHash k = H secret"
  have found: "find ?P (api_keys st) = Some k"
    using assms(2) by (simp add: first_match_find)
  have "\<exists>y. find ?P (ks @ extra) = Some y \<and> key_kept k y"
    using rel _ found by (rule find_kept) (simp add: key_kept_def)
  then show ?thesis by (simp add: first_match_find st')
qed

section \<open>Revocation\<close>

lemma lookup_markRevoked:
  assumes "lookup st kid = Some k" and "revokedAt k = None"
  shows "lookup (markRevoked st kid actor reason ts) kid
         = Some (k\<lparr>revokedAt := Some ts, revokedBy := Some actor,
                   revocationReason := reason, updatedAt := ts\<rparr>)"
proof -
  let ?f = "\<lambda>k. if id_key k = kid \<and> revokedAt k = None
                 then k\<lparr>revokedAt := Some ts, revokedBy := Some actor,
                        revocationReason := reason, updatedAt := ts\<rparr>
                 else k"
  have "find (\<lambda>k. id_key k = kid) (map ?f (api_keys st))
        = map_option ?f (find (\<lambda>k. id_key k = kid) (api_keys st))"
    by (rule find_map_pres) simp
  with assms lookup_Some_id [OF assms(1)] show ?thesis
    by (simp add: lookup_def markRevoked_def)
qed

text \<open>
  C6. For a key of the store: when its \<^verbatim>\<open>revokedAt\<close> is set, revoke fails with
  \<^verbatim>\<open>AlreadyRevoked\<close> and the store stays as it is; otherwise revoke succeeds, the
  revocation fields of the key are set, and the audit log grows by exactly one event: of
  kind \<^verbatim>\<open>revoked\<close>, for this key, by this actor, at the time of the revocation. Once
  \<^verbatim>\<open>revokedAt\<close> is set, the key has the same \<^verbatim>\<open>revokedAt\<close> after every run of
  creations, updates, revocations and usage records.
\<close>

theorem revoke_once:
  assumes "lookup st kid = Some k"
  shows "(revokedAt k \<noteq> None \<longrightarrow>
            revoke st now actor kid reason = Inl AlreadyRevoked
            \<and> apply_operation H st (Revoke now actor kid reason) = st)
       \<and> (revokedAt k = None \<longrightarrow>
            (\<exists>st' ev. revoke st now actor kid reason = Inr st'
               \<and> lookup st' kid = Some (k\<lparr>revokedAt := Some now, revokedBy := Some actor,
                                           revocationReason := reason, updatedAt := now\<rparr>)
               \<and> audit_log st' = audit_log st @ [ev]
               \<and> ev = \<lparr>api_key_id = kid, event_kind = revoked, actor_id = Some actor,
                        ip_address = None, user_agent = None, metadata = [],
                        created_at = now\<rparr>
               \<and> event_kind ev = revoked \<and> api_key_id ev = kid
               \<and> actor_id ev = Some actor \<and> created_at ev = now))
       \<and> (revokedAt k = Some t \<longrightarrow>
            (\<exists>k'. lookup (run H st ops) kid = Some k' \<and> revokedAt k' = Some t))"
proof (intro conjI impI)
  assume "revokedAt k \<noteq> None"
  with assms show "revoke st now actor kid reason = Inl AlreadyRevoked"
    by (simp add: revoke_def)
  then show "apply_operation H st (Revoke now actor kid reason) = st"
    by simp
next
  assume fresh: "revokedAt k = None"
  let ?ev = "\<lparr>api_key_id = kid, event_kind = revoked, actor_id = Some actor,
              ip_address = None, user_agent = None, metadata = [], created_at = now\<rparr>"
  let ?st' = "record_event (markRevoked st kid actor reason now)
                (audit_event kid revoked (Some actor) now)"
  have "revoke st now actor kid reason = Inr ?st'"
    using assms fresh by (simp add: revoke_def)
  moreover have "lookup ?st' kid = Some (k\<lparr>revokedAt := Some now, revokedBy := Some actor,
                                           revocationReason := reason, updatedAt := now\<rparr>)"
    using lookup_markRevoked [OF assms fresh, of actor reason now]
    by (simp add: lookup_def record_event_def)
  moreover have "audit_log ?st' = audit_log st @ [?ev]"
    by (simp add: record_event_def markRevoked_def audit_event_def)
  moreover have "event_kind ?ev = revoked \<and> api_key_id ?ev = kid
                 \<and> actor_id ?ev = Some actor \<and> created_at ?ev = now"
    by simp
  ultimately show "\<exists>st' ev. revoke st now actor kid reason = Inr st'
      \<and> lookup st' kid = Some (k\<lparr>revokedAt := Some now, revokedBy := Some actor,
                                  revocationReason := reason, updatedAt := now\<rparr>)
      \<and> audit_log st' = audit_log st @ [ev]
      \<and> ev = \<lparr>api_key_id = kid, event_kind = revoked, actor_id = Some actor,
               ip_address = None, user_agent = None, metadata = [], created_at = now\<rparr>
      \<and> event_kind ev = revoked \<and> api_key_id ev = kid
      \<and> actor_id ev = Some actor \<and> created_at ev = now"
    by blast
next
  assume set: "revokedAt k = Some t"
  obtain k' where "lookup (run H st ops) kid = Some k'" and "key_kept k k'"
    using lookup_kept [OF store_kept_run assms] by blast
  with set show "\<exists>k'. lookup (run H st ops) kid = Some k' \<and> revokedAt k' = Some t"
    by (auto simp: key_kept_def)
qed

theorem revoke_once_witness:
  "lookup example_store ''key_1'' = Some example_key \<and> revokedAt example_key = None
   \<and> (\<exists>st'. revoke example_store 3000 ''user_abc123'' ''key_1'' (Some ''rotated'') = Inr st'
         \<and> lookup st' ''key_1''
             = Some (example_key\<lparr>revokedAt := Some 3000, revokedBy := Some ''user_abc123'',
                                 revocationReason := Some ''rotated'', updatedAt := 3000\<rparr>)
         \<and> audit_log st'
             = [\<lparr>api_key_id = ''key_1'', event_kind = created,
                  actor_id = Some ''user_abc123'', ip_address = None, user_agent = None,
                  metadata = [], created_at = 1000\<rparr>,
                \<lparr>api_key_id = ''key_1'', event_kind = revoked,
                  actor_id = Some ''user_abc123'', ip_address = None, user_agent = None,
                  metadata = [], created_at = 3000\<rparr>])
   \<and> lookup (example_store\<lparr>api_keys := [example_key\<lparr>revokedAt := Some 3000\<rparr>]\<rparr>) ''key_1''
       = Some (example_key\<lparr>revokedAt := Some 3000\<rparr>)
   \<and> revoke (example_store\<lparr>api_keys := [example_key\<lparr>revokedAt := Some 3000\<rparr>]\<rparr>)
        4000 ''user_abc123'' ''key_1'' None = Inl AlreadyRevoked
   \<and> (\<exists>k'. lookup (run example_hash
                     (example_store\<lparr>api_keys := [example_key\<lparr>revokedAt := Some 3000\<rparr>]\<rparr>)
                     [Revoke 4000 ''user_abc123'' ''key_1'' None, Usage ''key_1'' 5000])
                  ''key_1'' = Some k'
          \<and> revokedAt k' = Some 3000)"
proof -
  have fresh: "revokedAt example_key = None"
    by (simp add: example_key_def)
  have log: "audit_log example_store
             = [\<lparr>api_key_id = ''key_1'', event_kind = created,
                  actor_id = Some ''user_abc123'', ip_address = None, user_agent = None,
                  metadata = [], created_at = 1000\<rparr>]"
    by (simp add: example_store_def audit_event_def)
  have look: "lookup (example_store\<lparr>api_keys := [example_key\<lparr>revokedAt := Some 3000\<rparr>]\<rparr>) ''key_1''
              = Some (example_key\<lparr>revokedAt := Some 3000\<rparr>)"
    by (simp add: lookup_def example_key_def)
  have rev: "revokedAt (example_key\<lparr>revokedAt := Some 3000\<rparr>) = Some 3000"
    by simp
  from revoke_once [OF example_lookup, of 3000 "''user_abc123''" "Some ''rotated''"] fresh
  obtain st' where st':
    "revoke example_store 3000 ''user_abc123'' ''key_1'' (Some ''rotated'') = Inr st'"
    "lookup st' ''key_1''
       = Some (example_key\<lparr>revokedAt := Some 3000, revokedBy := Some ''user_abc123'',
                           revocationReason := Some ''rotated'', updatedAt := 3000\<rparr>)"
    "audit_log st' = audit_log example_store
       @ [\<lparr>api_key_id = ''key_1'', event_kind = revoked, actor_id = Some ''user_abc123'',
            ip_address = None, user_agent = None, metadata = [], created_at = 3000\<rparr>]"
    by blast
  from st'(3) log have full: "audit_log st'
             = [\<lparr>api_key_id = ''key_1'', event_kind = created,
                  actor_id = Some ''user_abc123'', ip_address = None, user_agent = None,
                  metadata = [], created_at = 1000\<rparr>,
                \<lparr>api_key_id = ''key_1'', event_kind = revoked,
                  actor_id = Some ''user_abc123'', ip_address = None, user_agent = None,
                  metadata = [], created_at = 3000\<rparr>]"
    by simp
  note second = revoke_once [OF look, of 4000 "''user_abc123''" None example_hash 3000
      "[Revoke 4000 ''user_abc123'' ''key_1'' None, Usage ''key_1'' 5000]"]
  from second look rev
  have again: "revoke (example_store\<lparr>api_keys := [example_key\<lparr>revokedAt := Some 3000\<rparr>]\<rparr>)
        4000 ''user_abc123'' ''key_1'' None = Inl AlreadyRevoked"
    and kept: "\<exists>k'. lookup (run example_hash
                     (example_store\<lparr>api_keys := [example_key\<lparr>revokedAt := Some 3000\<rparr>]\<rparr>)
                     [Revoke 4000 ''user_abc123'' ''key_1'' None, Usage ''key_1'' 5000])
                  ''key_1'' = Some k'
          \<and> revokedAt k' = Some 3000"
    by blast+
  from example_lookup fresh st'(1,2) full look again kept
  show ?thesis by blast
qed

section \<open>Verification\<close>

lemma first_match_markRevoked:
  assumes "first_match H st secret = Some k"
  shows "\<exists>k'. first_match H (markRevoked st (id_key k) actor reason ts) secret = Some k'
           \<and> revokedAt k' \<noteq> None"
proof -
  let ?f = "\<lambda>x. if id_key x = id_key k \<and> revokedAt x = None
                 then x\<lparr>revokedAt := Some ts, revokedBy := Some actor,
                        revocationReason := reason, updatedAt := ts\<rparr>
                 else x"
  let ?P = "\<lambda>k. keyPrefix k = derive_prefix secret \<and> keyHash k = H secret"
  have "find ?P (map ?f (api_keys st)) = map_option ?f (find ?P (api_keys st))"
    by (rule find_map_pres) simp
  moreover have "find ?P (api_keys st) = Some k"
    using assms by (simp add: first_match_find)
  ultimately have "first_match H (markRevoked st (id_key k) actor reason ts) secret = Some (?f k)"
    by (simp add: first_match_find markRevoked_def)
  moreover have "revokedAt (?f k) \<noteq> None" by simp
  ultimately show ?thesis by blast
qed

text \<open>
  C2. For every presented secret: verification fails with \<^verbatim>\<open>InvalidKey\<close> when there is
  no match, in particular when no candidate with the prefix of the secret stores the hash
  of the secret; with \<^verbatim>\<open>RevokedKey\<close> when the matched record has \<^verbatim>\<open>revokedAt\<close> set; and
  with \<^verbatim>\<open>ExpiredKey\<close> when the matched record is not revoked and its \<^verbatim>\<open>expiresAt\<close> is
  present and reached. After the matched key is revoked, verification of the same secret
  fails with \<^verbatim>\<open>RevokedKey\<close> at every later time and after every run of operations.
\<close>

theorem verify_failures:
  "(first_match H st secret = None \<longrightarrow> verify H st now secret = Inl InvalidKey)
   \<and> ((\<forall>k \<in> set (findByPrefix st (derive_prefix secret)). keyHash k \<noteq> H secret)
        \<longrightarrow> verify H st now secret = Inl InvalidKey)
   \<and> (first_match H st secret = Some k \<and> revokedAt k \<noteq> None
        \<longrightarrow> verify H st now secret = Inl RevokedKey)
   \<and> (first_match H st secret = Some k \<and> revokedAt k = None
          \<and> expiresAt k = Some e \<and> e \<le> now
        \<longrightarrow> verify H st now secret = Inl ExpiredKey)
   \<and> (first_match H st secret = Some k
          \<and> revoke st t actor (id_key k) reason = Inr st'
        \<longrightarrow> verify H (run H st' ops) now' secret = Inl RevokedKey)"
proof (intro conjI impI)
  assume "first_match H st secret = None"
  then show "verify H st now secret = Inl InvalidKey"
    by (simp add: verify_def)
next
  assume "\<forall>k \<in> set (findByPrefix st (derive_prefix secret)). keyHash k \<noteq> H secret"
  then have "first_match H st secret = None"
    by (simp add: first_match_def find_None_iff)
  then show "verify H st now secret = Inl InvalidKey"
    by (simp add: verify_def)
next
  assume "first_match H st secret = Some k \<and> revokedAt k \<noteq> None"
  then show "verify H st now secret = Inl RevokedKey"
    by (auto simp: verify_def)
next
  assume "first_match H st secret = Some k \<and> revokedAt k = None
          \<and> expiresAt k = Some e \<and> e \<le> now"
  then show "verify H st now secret = Inl ExpiredKey"
    by (simp add: verify_def)
next
  assume a: "first_match H st secret = Some k
             \<and> revoke st t actor (id_key k) reason = Inr st'"
  then have st': "st' = record_event (markRevoked st (id_key k) actor reason t)
                          (audit_event (id_key k) revoked (Some actor) t)"
    by (auto simp: revoke_def split: option.splits if_splits)
  obtain k1 where k1: "first_match H (markRevoked st (id_key k) actor reason t) secret = Some k1"
      "revokedAt k1 \<noteq> None"
    using first_match_markRevoked [of H st secret k] a by blast
  then have "first_match H st' secret = Some k1"
    by (simp add: st' first_match_find record_event_def)
  then obtain k2 where k2: "first_match H (run H st' ops) secret = Some k2" "key_kept k1 k2"
    using first_match_kept [OF store_kept_run] by blast
  with k1(2) have "revokedAt k2 \<noteq> None"
    by (auto simp: key_kept_def)
  with k2(1) show "verify H (run H st' ops) now' secret = Inl RevokedKey"
    by (simp add: verify_def)
qed

theorem verify_failures_witness:
  "first_match example_hash example_store ''mc_abcdefghiXYZ'' = None
   \<and> verify example_hash example_store 4000 ''mc_abcdefghiXYZ'' = Inl InvalidKey
   \<and> first_match example_hash
        (example_store\<lparr>api_keys := [example_key\<lparr>revokedAt := Some 3000\<rparr>]\<rparr>) example_secret
       = Some (example_key\<lparr>revokedAt := Some 3000\<rparr>)
   \<and> verify example_hash
        (example_store\<lparr>api_keys := [example_key\<lparr>revokedAt := Some 3000\<rparr>]\<rparr>)
        4000 example_secret = Inl RevokedKey
   \<and> first_match example_hash
        (example_store\<lparr>api_keys := [example_key\<lparr>expiresAt := Some 3500\<rparr>]\<rparr>) example_secret
       = Some (example_key\<lparr>expiresAt := Some 3500\<rparr>)
   \<and> verify example_hash
        (example_store\<lparr>api_keys := [example_key\<lparr>expiresAt := Some 3500\<rparr>]\<rparr>)
        4000 example_secret = Inl ExpiredKey
   \<and> first_match example_hash example_store example_secret = Some example_key
   \<and> verify example_hash example_store 2000 example_secret = Inr example_key
   \<and> (\<exists>st'. revoke example_store 3000 ''user_abc123'' (id_key example_key) (Some ''rotated'')
             = Inr st'
         \<and> verify example_hash (run example_hash st' [Usage ''key_1'' 3500]) 4000 example_secret
             = Inl RevokedKey)"
proof -
  have none: "first_match example_hash example_store ''mc_abcdefghiXYZ'' = None"
    by (simp add: first_match_def findByPrefix_def derive_prefix_def substring_def
        example_store_def example_key_def example_hash_def)
  have m0: "first_match example_hash example_store example_secret = Some example_key"
    using example_first_match [of example_key]
    by (simp add: example_store_def example_key_def)
  have m1: "first_match example_hash
        (example_store\<lparr>api_keys := [example_key\<lparr>revokedAt := Some 3000\<rparr>]\<rparr>) example_secret
       = Some (example_key\<lparr>revokedAt := Some 3000\<rparr>)"
    by (simp add: example_first_match example_key_def)
  have m2: "first_match example_hash
        (example_store\<lparr>api_keys := [example_key\<lparr>expiresAt := Some 3500\<rparr>]\<rparr>) example_secret
       = Some (example_key\<lparr>expiresAt := Some 3500\<rparr>)"
    by (simp add: example_first_match example_key_def)
  have ok: "verify example_hash example_store 2000 example_secret = Inr example_key"
    by (simp add: verify_def m0) (simp add: example_key_def)
  obtain st' where
    rv: "revoke example_store 3000 ''user_abc123'' (id_key example_key) (Some ''rotated'') = Inr st'"
    using example_lookup by (simp add: revoke_def example_key_def)
  have f1: "revokedAt (example_key\<lparr>revokedAt := Some 3000\<rparr>) \<noteq> None" by simp
  have f2: "revokedAt (example_key\<lparr>expiresAt := Some 3500\<rparr>) = None
            \<and> expiresAt (example_key\<lparr>expiresAt := Some 3500\<rparr>) = Some 3500 \<and> (3500::int) \<le> 4000"
    by (simp add: example_key_def)
  from verify_failures [of example_hash example_store "''mc_abcdefghiXYZ''" 4000] none
  have v0: "verify example_hash example_store 4000 ''mc_abcdefghiXYZ'' = Inl InvalidKey"
    by blast
  from verify_failures [of example_hash _ example_secret 4000 "example_key\<lparr>revokedAt := Some 3000\<rparr>"]
    m1 f1
  have v1: "verify example_hash
        (example_store\<lparr>api_keys := [example_key\<lparr>revokedAt := Some 3000\<rparr>]\<rparr>)
        4000 example_secret = Inl RevokedKey"
    by blast
  from verify_failures [of example_hash _ example_secret 4000
      "example_key\<lparr>expiresAt := Some 3500\<rparr>" 3500] m2 f2
  have v2: "verify example_hash
        (example_store\<lparr>api_keys := [example_key\<lparr>expiresAt := Some 3500\<rparr>]\<rparr>)
        4000 example_secret = Inl ExpiredKey"
    by blast
  from verify_failures [of example_hash example_store example_secret _ example_key _
      3000 "''user_abc123''" "Some ''rotated''" st' "[Usage ''key_1'' 3500]" 4000] m0 rv
  have v3: "verify example_hash (run example_hash st' [Usage ''key_1'' 3500]) 4000 example_secret
             = Inl RevokedKey"
    by blast
  from none v0 m1 v1 m2 v2 m0 ok rv v3 show ?thesis by blast
qed

section \<open>The secret and the store\<close>

lemma alike_cases:
  "alike H op1 op2 \<Longrightarrow>
     op1 = op2 \<or> (\<exists>now refused e1 e2 kid inp. op1 = Create now refused e1 kid inp
                   \<and> op2 = Create now refused e2 kid inp \<and> same_imprint H e1 e2)"
  by (cases op1; cases op2) auto

lemma create_same_imprint:
  assumes "same_imprint H e1 e2"
  shows "map_sum id (\<lambda>(st', k, s). (st', k)) (create H st now refused e1 kid inp)
       = map_sum id (\<lambda>(st', k, s). (st', k)) (create H st now refused e2 kid inp)"
  using assms
  by (auto simp: same_imprint_def create_def Let_def
      split: option.splits prod.splits sum.splits)

lemma apply_operation_alike:
  assumes "alike H op1 op2"
  shows "apply_operation H st op1 = apply_operation H st op2"
proof -
  from alike_cases [OF assms] show ?thesis
  proof (elim disjE exE conjE)
    assume "op1 = op2" then show ?thesis by simp
  next
    fix now refused e1 e2 kid inp
    assume ops: "op1 = Create now refused e1 kid inp" "op2 = Create now refused e2 kid inp"
      and im: "same_imprint H e1 e2"
    have "map_sum id (\<lambda>(st', k, s). (st', k)) (create H st now refused e1 kid inp)
        = map_sum id (\<lambda>(st', k, s). (st', k)) (create H st now refused e2 kid inp)"
      by (rule create_same_imprint [OF im])
    then show ?thesis
      unfolding ops
      by (cases "create H st now refused e1 kid inp";
          cases "create H st now refused e2 kid inp") auto
  qed
qed

lemma run_alike:
  "list_all2 (alike H) ops1 ops2 \<Longrightarrow> run H st ops1 = run H st ops2"
proof (induction ops1 ops2 arbitrary: st rule: list_all2_induct)
  case Nil
  show ?case by simp
next
  case (Cons op1 ops1 op2 ops2)
  then show ?case by (simp add: apply_operation_alike)
qed

lemma create_result:
  assumes "create H st now refused entropy kid inp = Inr (st', k, secret)"
  shows "\<exists>bytes. entropy = Some bytes \<and> secret = fst (generateAPIKey bytes)
           \<and> keyHash k = H secret \<and> keyPrefix k = derive_prefix secret
           \<and> lookup st' kid = Some k
           \<and> audit_log st' = audit_log st @ [audit_event kid created (Some (c_actor inp)) now]"
  using assms
  by (auto simp: create_def Let_def insert_key_def generateAPIKey_def derive_prefix_def
      lookup_def record_event_def find_append_last
      split: option.splits prod.splits sum.splits)

text \<open>
  C3. A creation that succeeds returns the generated secret with the record, and the
  record, which is then in the store, holds the hash and the prefix of the secret. The
  store depends on the secrets through their hashes and prefixes only: two runs of alike
  operations end in the same store, so every read gives the same answer in both. Hence,
  when two different secrets have the same hash and the same prefix, no function of the
  store gives back the secret of each: no read recovers the plaintext.
\<close>

theorem secret_not_retained:
  "(create H st now refused entropy kid inp = Inr (st', k, secret) \<longrightarrow>
      (\<exists>bytes. entropy = Some bytes \<and> secret = fst (generateAPIKey bytes))
      \<and> keyHash k = H secret \<and> keyPrefix k = derive_prefix secret
      \<and> lookup st' kid = Some k)
   \<and> (list_all2 (alike H) ops1 ops2 \<longrightarrow> run H st ops1 = run H st ops2)
   \<and> (same_imprint H (Some b1) (Some b2) \<and> fst (generateAPIKey b1) \<noteq> fst (generateAPIKey b2)
        \<longrightarrow> \<not> (\<exists>recover :: store \<Rightarrow> string.
              recover (run H st (Create now refused (Some b1) kid inp # ops))
                = fst (generateAPIKey b1)
              \<and> recover (run H st (Create now refused (Some b2) kid inp # ops))
                = fst (generateAPIKey b2)))"
proof (intro conjI impI)
  assume c: "create H st now refused entropy kid inp = Inr (st', k, secret)"
  from create_result [OF c]
  show "\<exists>bytes. entropy = Some bytes \<and> secret = fst (generateAPIKey bytes)"
    and "keyHash k = H secret" and "keyPrefix k = derive_prefix secret"
    and "lookup st' kid = Some k"
    by blast+
next
  assume "list_all2 (alike H) ops1 ops2"
  then show "run H st ops1 = run H st ops2" by (rule run_alike)
next
  assume a: "same_imprint H (Some b1) (Some b2)
             \<and> fst (generateAPIKey b1) \<noteq> fst (generateAPIKey b2)"
  then have "alike H (Create now refused (Some b1) kid inp) (Create now refused (Some b2) kid inp)"
    by simp
  then have "run H st (Create now refused (Some b1) kid inp # ops)
           = run H st (Create now refused (Some b2) kid inp # ops)"
    by (simp only: run.simps apply_operation_alike)
  with a show "\<not> (\<exists>recover :: store \<Rightarrow> string.
      recover (run H st (Create now refused (Some b1) kid inp # ops)) = fst (generateAPIKey b1)
      \<and> recover (run H st (Create now refused (Some b2) kid inp # ops))
          = fst (generateAPIKey b2))"
    by auto
qed

theorem secret_not_retained_witness:
  "create example_hash \<lparr>api_keys = [], audit_log = []\<rparr> 1000 None
     (Some (example_bytes @ [0xf4])) ''key_1'' example_input
   = Inr (example_store, example_key, example_secret)
   \<and> keyHash example_key = example_hash example_secret
   \<and> keyPrefix example_key = derive_prefix example_secret
   \<and> same_imprint example_hash (Some (example_bytes @ [0xf4])) (Some (example_bytes @ [0xf5]))
   \<and> fst (generateAPIKey (example_bytes @ [0xf4])) \<noteq> fst (generateAPIKey (example_bytes @ [0xf5]))
   \<and> run example_hash \<lparr>api_keys = [], audit_log = []\<rparr>
        [Create 1000 None (Some (example_bytes @ [0xf4])) ''key_1'' example_input]
     = run example_hash \<lparr>api_keys = [], audit_log = []\<rparr>
        [Create 1000 None (Some (example_bytes @ [0xf5])) ''key_1'' example_input]
   \<and> \<not> (\<exists>recover :: store \<Rightarrow> string.
          recover (run example_hash \<lparr>api_keys = [], audit_log = []\<rparr>
                    [Create 1000 None (Some (example_bytes @ [0xf4])) ''key_1'' example_input])
            = fst (generateAPIKey (example_bytes @ [0xf4]))
          \<and> recover (run example_hash \<lparr>api_keys = [], audit_log = []\<rparr>
                    [Create 1000 None (Some (example_bytes @ [0xf5])) ''key_1'' example_input])
            = fst (generateAPIKey (example_bytes @ [0xf5])))"
proof -
  have im: "same_imprint example_hash (Some (example_bytes @ [0xf4])) (Some (example_bytes @ [0xf5]))"
    by (simp add: same_imprint_def example_generate_f4 example_generate_f5 example_hash_def
        example_secret_def)
  have ne: "fst (generateAPIKey (example_bytes @ [0xf4])) \<noteq> fst (generateAPIKey (example_bytes @ [0xf5]))"
    by (simp add: example_generate_f4 example_generate_f5 example_secret_def)
  have al: "list_all2 (alike example_hash)
              [Create 1000 None (Some (example_bytes @ [0xf4])) ''key_1'' example_input]
              [Create 1000 None (Some (example_bytes @ [0xf5])) ''key_1'' example_input]"
    using im by simp
  note inst = secret_not_retained
    [of example_hash "\<lparr>api_keys = [], audit_log = []\<rparr>" 1000 None
        "Some (example_bytes @ [0xf4])" "''key_1''" example_input
        example_store example_key example_secret
        "[Create 1000 None (Some (example_bytes @ [0xf4])) ''key_1'' example_input]"
        "[Create 1000 None (Some (example_bytes @ [0xf5])) ''key_1'' example_input]"
        "example_bytes @ [0xf4]" "example_bytes @ [0xf5]" "[]"]
  from inst example_create im ne al show ?thesis by blast
qed

end
